theory Spec2Isabelle
  imports Complex_Main
begin

section \<open>Python values used by \<open>aimakerspace/text_utils.py\<close>\<close>

text \<open>
  A Python \<open>str\<close> is a sequence of Unicode code points. The loader's texts, paths and
  messages are lists of code points (\<open>pystr\<close>); the splitter only slices and measures
  its argument, so it is stated for a list over any character type.
\<close>

type_synonym codepoint = nat
type_synonym pystr = "codepoint list"

text \<open>A string literal of the source, as code points.\<close>

definition str :: "string \<Rightarrow> pystr" where
  "str s = map of_char s"

text \<open>
  A raised exception: its class name and the text \<open>str(e)\<close> gives. A call that may raise
  returns \<open>py_exception + 'a\<close>, with \<open>Inl\<close> for the exception.
\<close>

datatype py_exception = Exc string pystr

fun exc_str :: "py_exception \<Rightarrow> pystr" where
  "exc_str (Exc cls msg) = msg"

definition AssertionError :: "string \<Rightarrow> py_exception" where
  "AssertionError msg = Exc ''AssertionError'' (str msg)"

definition ValueError :: "string \<Rightarrow> py_exception" where
  "ValueError msg = Exc ''ValueError'' (str msg)"

definition AttributeError :: "string \<Rightarrow> py_exception" where
  "AttributeError msg = Exc ''AttributeError'' (str msg)"

text \<open>The exception of \<open>None.get\<close>: \<open>'NoneType' object has no attribute 'get'\<close>.\<close>

definition NoneType_has_no_get :: py_exception where
  "NoneType_has_no_get =
     AttributeError ([CHR 0x27] @ ''NoneType'' @ [CHR 0x27] @ '' object has no attribute ''
                     @ [CHR 0x27] @ ''get'' @ [CHR 0x27])"

subsection \<open>Slices and ranges\<close>

text \<open>
  \<open>xs[start:stop]\<close>: a negative index counts from the end, and both indices are clipped
  to \<open>0 .. len(xs)\<close>; the slice is empty when the adjusted start is not before the
  adjusted stop. Slicing never raises.
\<close>

definition adjust_index :: "int \<Rightarrow> int \<Rightarrow> int" where
  "adjust_index len i =
     (if i < 0 then (if i + len < 0 then 0 else i + len)
      else if len \<le> i then len else i)"

definition py_slice :: "'a list \<Rightarrow> int \<Rightarrow> int \<Rightarrow> 'a list" where
  "py_slice xs start stop =
     (let len = int (length xs);
          a = adjust_index len start;
          b = adjust_index len stop
      in if a < b then take (nat (b - a)) (drop (nat a) xs) else [])"

text \<open>
  The values \<open>range(start, stop, step)\<close> yields, for a step other than zero: upwards while
  below \<open>stop\<close> for a positive step, downwards while above it for a negative one.
\<close>

function range_values :: "int \<Rightarrow> int \<Rightarrow> int \<Rightarrow> int list" where
  "range_values start stop step =
     (if 0 < step \<and> start < stop then start # range_values (start + step) stop step
      else if step < 0 \<and> stop < start then start # range_values (start + step) stop step
      else [])"
  by pat_completeness auto
termination
  by (relation "measure (\<lambda>(start, stop, step).
        if 0 < step then nat (stop - start) else nat (start - stop))") auto

text \<open>\<open>range\<close> raises \<open>ValueError\<close> when the step is zero.\<close>

definition py_range :: "int \<Rightarrow> int \<Rightarrow> int \<Rightarrow> py_exception + int list" where
  "py_range start stop step =
     (if step = 0 then Inl (ValueError ''range() arg 3 must not be zero'')
      else Inr (range_values start stop step))"

section \<open>\<open>CharacterTextSplitter\<close>\<close>

record CharacterTextSplitter =
  chunk_size :: int
  chunk_overlap :: int

text \<open>
  \<open>__init__\<close>: the assertion \<open>chunk_size > chunk_overlap\<close>, then the two fields are set.
  A failed assertion raises \<open>AssertionError\<close> and no object is returned.
\<close>

definition CharacterTextSplitter_init :: "int \<Rightarrow> int \<Rightarrow> py_exception + CharacterTextSplitter" where
  "CharacterTextSplitter_init csize coverlap =
     (if csize > coverlap
      then Inr \<lparr>chunk_size = csize, chunk_overlap = coverlap\<rparr>
      else Inl (AssertionError ''Chunk size must be greater than chunk overlap''))"

text \<open>
  \<open>split\<close>: \<open>chunks\<close> starts empty; for each \<open>i\<close> of
  \<open>range(0, len(text), chunk_size - chunk_overlap)\<close> the slice \<open>text[i : i + chunk_size]\<close>
  is appended.
\<close>

fun split_loop :: "CharacterTextSplitter \<Rightarrow> 'a list \<Rightarrow> 'a list list \<Rightarrow> int list \<Rightarrow> 'a list list" where
  "split_loop self text chunks [] = chunks"
| "split_loop self text chunks (i # is) =
     split_loop self text (chunks @ [py_slice text i (i + chunk_size self)]) is"

definition split :: "CharacterTextSplitter \<Rightarrow> 'a list \<Rightarrow> py_exception + 'a list list" where
  "split self text =
     (case py_range 0 (int (length text)) (chunk_size self - chunk_overlap self) of
        Inl e \<Rightarrow> Inl e
      | Inr offsets \<Rightarrow> Inr (split_loop self text [] offsets))"

text \<open>
  \<open>split_texts\<close>: \<open>chunks\<close> starts empty and is extended by \<open>split(text)\<close> for each text
  in order; an exception of \<open>split\<close> ends the loop.
\<close>

fun split_texts_loop :: "CharacterTextSplitter \<Rightarrow> 'a list list \<Rightarrow> 'a list list \<Rightarrow> py_exception + 'a list list" where
  "split_texts_loop self chunks [] = Inr chunks"
| "split_texts_loop self chunks (text # texts) =
     (case split self text of
        Inl e \<Rightarrow> Inl e
      | Inr cs \<Rightarrow> split_texts_loop self (chunks @ cs) texts)"

definition split_texts :: "CharacterTextSplitter \<Rightarrow> 'a list list \<Rightarrow> py_exception + 'a list list" where
  "split_texts self texts = split_texts_loop self [] texts"

subsection \<open>What the specification says of the splitter\<close>

text \<open>
  The chunk count the specification gives:
  \<open>ceil(max(len(s) - k, 0) / (n - k))\<close>, for a text of length \<open>len\<close>.
\<close>

definition spec_chunk_count :: "nat \<Rightarrow> int \<Rightarrow> int \<Rightarrow> int" where
  "spec_chunk_count len n k = \<lceil>max (real_of_int (int len - k)) 0 / real_of_int (n - k)\<rceil>"

text \<open>
  The reconstruction the specification describes: the first chunk, followed by every later
  chunk without its first \<open>k\<close> characters (none are removed when \<open>k\<close> is negative).
\<close>

fun reconstruct :: "int \<Rightarrow> 'a list list \<Rightarrow> 'a list" where
  "reconstruct k [] = []"
| "reconstruct k (c # cs) = c @ concat (map (drop (nat k)) cs)"

section \<open>Strings, the file system and the PDF library\<close>

text \<open>
  \<open>s.strip()\<close> removes the white space at both ends of \<open>s\<close>; white space is what
  \<open>str.isspace\<close> accepts. A string is true in a condition when it is not empty.
\<close>

definition py_isspace :: "codepoint \<Rightarrow> bool" where
  "py_isspace c =
     (c \<in> {9, 10, 11, 12, 13, 28, 29, 30, 31, 32, 133, 160, 5760, 8232, 8233, 8239, 8287, 12288}
      \<or> (8192 \<le> c \<and> c \<le> 8202))"

definition py_strip :: "pystr \<Rightarrow> pystr" where
  "py_strip s = rev (dropWhile py_isspace (rev (dropWhile py_isspace s)))"

definition newline :: pystr where
  "newline = [10]"

definition endswith :: "pystr \<Rightarrow> pystr \<Rightarrow> bool" where
  "endswith s suffix =
     (length suffix \<le> length s \<and> drop (length s - length suffix) s = suffix)"

text \<open>\<open>os.path.join(a, b)\<close> for two components, as \<open>posixpath\<close> defines it.\<close>

definition os_path_join :: "pystr \<Rightarrow> pystr \<Rightarrow> pystr" where
  "os_path_join a b =
     (if take 1 b = str ''/'' then b
      else if a = [] \<or> endswith a (str ''/'') then a @ b
      else a @ str ''/'' @ b)"

text \<open>\<open>sep.join(parts)\<close>: the parts with the separator between neighbours.\<close>

fun py_join :: "pystr \<Rightarrow> pystr list \<Rightarrow> pystr" where
  "py_join sep [] = []"
| "py_join sep [t] = t"
| "py_join sep (t # u # ts) = t @ sep @ py_join sep (u # ts)"

text \<open>\<open>d.get(key, default)\<close> on a dictionary.\<close>

definition dict_get :: "(pystr \<rightharpoonup> pystr) \<Rightarrow> pystr \<Rightarrow> pystr \<Rightarrow> pystr" where
  "dict_get d key dflt = (case d key of None \<Rightarrow> dflt | Some v \<Rightarrow> v)"

text \<open>
  What \<open>PyPDF2.PdfReader\<close> exposes of an opened file: for each page what
  \<open>page.extract_text()\<close> returns or raises, and \<open>reader.metadata\<close>, the information
  dictionary, which is \<open>None\<close> for a file without one.
\<close>

record PdfReader =
  pages :: "(py_exception + pystr) list"
  reader_metadata :: "(pystr \<rightharpoonup> pystr) option"

text \<open>
  The world outside the program, as the loaders see it:
  \<^item> \<open>isdir\<close>, \<open>isfile\<close>: \<open>os.path.isdir\<close>, \<open>os.path.isfile\<close>;
  \<^item> \<open>read_text p enc\<close>: \<open>open(p, "r", encoding=enc)\<close> and \<open>f.read()\<close>, which raise when the
    file cannot be opened or decoded;
  \<^item> \<open>read_pdf p\<close>: \<open>open(p, "rb")\<close> and \<open>PyPDF2.PdfReader(file)\<close> up to the page count,
    which raise when the file cannot be opened or parsed;
  \<^item> \<open>walk p\<close>: the triples \<open>(root, dirs, files)\<close> of \<open>os.walk(p)\<close>, in order.
\<close>

record filesystem =
  isdir :: "pystr \<Rightarrow> bool"
  isfile :: "pystr \<Rightarrow> bool"
  read_text :: "pystr \<Rightarrow> pystr \<Rightarrow> py_exception + pystr"
  read_pdf :: "pystr \<Rightarrow> py_exception + PdfReader"
  walk :: "pystr \<Rightarrow> (pystr \<times> pystr list \<times> pystr list) list"

text \<open>
  A method call on an object of state \<open>'s\<close> gives: the value returned or the exception
  raised, the state of the object afterwards (also when it raised), and the lines printed.
\<close>

type_synonym ('r, 's) run = "(py_exception + 'r) \<times> 's \<times> pystr list"

section \<open>\<open>TextFileLoader\<close>\<close>

record TextFileLoader =
  documents :: "pystr list"
  path :: pystr
  encoding :: pystr

definition TextFileLoader_init :: "pystr \<Rightarrow> pystr \<Rightarrow> TextFileLoader" where
  "TextFileLoader_init p enc = \<lparr>documents = [], path = p, encoding = enc\<rparr>"

definition load_file :: "filesystem \<Rightarrow> TextFileLoader \<Rightarrow> (unit, TextFileLoader) run" where
  "load_file fs self =
     (case read_text fs (path self) (encoding self) of
        Inl e \<Rightarrow> (Inl e, self, [])
      | Inr content \<Rightarrow> (Inr (), self\<lparr>documents := documents self @ [content]\<rparr>, []))"

text \<open>
  The page loop of \<open>load_pdf_file\<close>: \<open>text_content += page.extract_text() + "\n"\<close> for each
  page in order; an exception of \<open>extract_text\<close> leaves the loop.
\<close>

fun extract_pages :: "(py_exception + pystr) list \<Rightarrow> pystr \<Rightarrow> py_exception + pystr" where
  "extract_pages [] text_content = Inr text_content"
| "extract_pages (page # rest) text_content =
     (case page of
        Inl e \<Rightarrow> Inl e
      | Inr t \<Rightarrow> extract_pages rest (text_content @ t @ newline))"

text \<open>
  \<open>load_pdf_file\<close>: the text of all pages is appended as one document when it is not
  blank, otherwise a warning is printed. Any exception is printed and raised again.
\<close>

definition load_pdf_file :: "filesystem \<Rightarrow> TextFileLoader \<Rightarrow> (unit, TextFileLoader) run" where
  "load_pdf_file fs self =
     (case (case read_pdf fs (path self) of
              Inl e \<Rightarrow> Inl e
            | Inr pdf_reader \<Rightarrow> extract_pages (pages pdf_reader) []) of
        Inl e \<Rightarrow>
          (Inl e, self, [str ''Error reading PDF file '' @ path self @ str '': '' @ exc_str e])
      | Inr text_content \<Rightarrow>
          if py_strip text_content \<noteq> []
          then (Inr (), self\<lparr>documents := documents self @ [text_content]\<rparr>, [])
          else (Inr (), self, [str ''Warning: No text content extracted from '' @ path self]))"

text \<open>
  The body of the inner loop of \<open>load_directory\<close>, for one file name of one directory:
  a \<open>.txt\<close> file is read and appended, a \<open>.pdf\<close> file is loaded by a loader of its own
  whose documents are appended, any other file is passed over.
\<close>

definition load_directory_file ::
    "filesystem \<Rightarrow> pystr \<Rightarrow> TextFileLoader \<Rightarrow> pystr \<Rightarrow> (unit, TextFileLoader) run" where
  "load_directory_file fs rootdir self file =
     (let file_path = os_path_join rootdir file in
      if endswith file (str ''.txt'') then
        (case read_text fs file_path (encoding self) of
           Inl e \<Rightarrow> (Inl e, self, [])
         | Inr content \<Rightarrow> (Inr (), self\<lparr>documents := documents self @ [content]\<rparr>, []))
      else if endswith file (str ''.pdf'') then
        (case load_pdf_file fs (TextFileLoader_init file_path (encoding self)) of
           (Inl e, pdf_loader, out) \<Rightarrow> (Inl e, self, out)
         | (Inr u, pdf_loader, out) \<Rightarrow>
             (Inr (), self\<lparr>documents := documents self @ documents pdf_loader\<rparr>, out))
      else (Inr (), self, []))"

fun load_directory_files ::
    "filesystem \<Rightarrow> pystr \<Rightarrow> TextFileLoader \<Rightarrow> pystr list \<Rightarrow> (unit, TextFileLoader) run" where
  "load_directory_files fs rootdir self [] = (Inr (), self, [])"
| "load_directory_files fs rootdir self (file # files) =
     (case load_directory_file fs rootdir self file of
        (Inl e, self', out) \<Rightarrow> (Inl e, self', out)
      | (Inr u, self', out) \<Rightarrow>
          (case load_directory_files fs rootdir self' files of
             (r, self'', out') \<Rightarrow> (r, self'', out @ out')))"

fun load_directory_walk ::
    "filesystem \<Rightarrow> TextFileLoader \<Rightarrow> (pystr \<times> pystr list \<times> pystr list) list
      \<Rightarrow> (unit, TextFileLoader) run" where
  "load_directory_walk fs self [] = (Inr (), self, [])"
| "load_directory_walk fs self ((rootdir, dirs, files) # entries) =
     (case load_directory_files fs rootdir self files of
        (Inl e, self', out) \<Rightarrow> (Inl e, self', out)
      | (Inr u, self', out) \<Rightarrow>
          (case load_directory_walk fs self' entries of
             (r, self'', out') \<Rightarrow> (r, self'', out @ out')))"

definition load_directory :: "filesystem \<Rightarrow> TextFileLoader \<Rightarrow> (unit, TextFileLoader) run" where
  "load_directory fs self = load_directory_walk fs self (walk fs (path self))"

definition load :: "filesystem \<Rightarrow> TextFileLoader \<Rightarrow> (unit, TextFileLoader) run" where
  "load fs self =
     (if isdir fs (path self) then load_directory fs self
      else if isfile fs (path self) then
        (if endswith (path self) (str ''.txt'') then load_file fs self
         else if endswith (path self) (str ''.pdf'') then load_pdf_file fs self
         else (Inl (ValueError ''Provided file is neither a .txt nor .pdf file.''), self, []))
      else (Inl (ValueError ''Provided path is neither a valid directory nor a supported file.''),
            self, []))"

definition load_documents :: "filesystem \<Rightarrow> TextFileLoader \<Rightarrow> (pystr list, TextFileLoader) run" where
  "load_documents fs self =
     (case load fs self of
        (Inl e, self', out) \<Rightarrow> (Inl e, self', out)
      | (Inr u, self', out) \<Rightarrow> (Inr (documents self'), self', out))"

section \<open>\<open>PDFFileLoader\<close>\<close>

text \<open>The dictionary built for a page, with its ten keys as fields.\<close>

record PageMetadata =
  source_file :: pystr
  page_number :: nat
  total_pages :: nat
  document_title :: pystr
  document_author :: pystr
  document_subject :: pystr
  document_creator :: pystr
  document_producer :: pystr
  creation_date :: pystr
  modification_date :: pystr

text \<open>
  The fields \<open>documents\<close>, \<open>metadata\<close> and \<open>path\<close> of the class (with a prefix, as the names
  are taken by \<open>TextFileLoader\<close>).
\<close>

record PDFFileLoader =
  pdf_documents :: "pystr list"
  pdf_metadata :: "PageMetadata list"
  pdf_path :: pystr

definition PDFFileLoader_init :: "pystr \<Rightarrow> PDFFileLoader" where
  "PDFFileLoader_init p = \<lparr>pdf_documents = [], pdf_metadata = [], pdf_path = p\<rparr>"

definition page_metadata :: "pystr \<Rightarrow> nat \<Rightarrow> nat \<Rightarrow> (pystr \<rightharpoonup> pystr) \<Rightarrow> PageMetadata" where
  "page_metadata p page_num n_pages doc_info =
     \<lparr>source_file = p,
      page_number = page_num + 1,
      total_pages = n_pages,
      document_title = dict_get doc_info (str ''/Title'') (str ''Unknown''),
      document_author = dict_get doc_info (str ''/Author'') (str ''Unknown''),
      document_subject = dict_get doc_info (str ''/Subject'') [],
      document_creator = dict_get doc_info (str ''/Creator'') [],
      document_producer = dict_get doc_info (str ''/Producer'') [],
      creation_date = dict_get doc_info (str ''/CreationDate'') [],
      modification_date = dict_get doc_info (str ''/ModDate'') []\<rparr>"

text \<open>
  The page loop of \<open>load_pdf_with_metadata\<close>, over the page numbers of
  \<open>range(len(pdf_reader.pages))\<close>: a page whose text is not blank appends its text to
  \<open>documents\<close> and its dictionary to \<open>metadata\<close>. Building the dictionary calls
  \<open>doc_info.get\<close>, which raises \<open>AttributeError\<close> when \<open>doc_info\<close> is \<open>None\<close>.
\<close>

fun load_pdf_pages ::
    "PdfReader \<Rightarrow> PDFFileLoader \<Rightarrow> nat list \<Rightarrow> (py_exception + unit) \<times> PDFFileLoader" where
  "load_pdf_pages pdf_reader self [] = (Inr (), self)"
| "load_pdf_pages pdf_reader self (page_num # rest) =
     (case pages pdf_reader ! page_num of
        Inl e \<Rightarrow> (Inl e, self)
      | Inr text_content \<Rightarrow>
          if py_strip text_content \<noteq> [] then
            (case reader_metadata pdf_reader of
               None \<Rightarrow> (Inl NoneType_has_no_get, self)
             | Some doc_info \<Rightarrow>
                 load_pdf_pages pdf_reader
                   (self\<lparr>pdf_documents := pdf_documents self @ [text_content],
                         pdf_metadata := pdf_metadata self
                           @ [page_metadata (pdf_path self) page_num (length (pages pdf_reader)) doc_info]\<rparr>)
                   rest)
          else load_pdf_pages pdf_reader self rest)"

definition load_pdf_with_metadata :: "filesystem \<Rightarrow> PDFFileLoader \<Rightarrow> (unit, PDFFileLoader) run" where
  "load_pdf_with_metadata fs self =
     (case (case read_pdf fs (pdf_path self) of
              Inl e \<Rightarrow> (Inl e, self)
            | Inr pdf_reader \<Rightarrow>
                load_pdf_pages pdf_reader self [0..<length (pages pdf_reader)]) of
        (Inl e, self') \<Rightarrow>
          (Inl e, self', [str ''Error reading PDF file '' @ pdf_path self @ str '': '' @ exc_str e])
      | (Inr u, self') \<Rightarrow> (Inr (), self', []))"

definition PDFFileLoader_load_documents ::
    "filesystem \<Rightarrow> PDFFileLoader \<Rightarrow> (pystr list \<times> PageMetadata list, PDFFileLoader) run" where
  "PDFFileLoader_load_documents fs self =
     (case load_pdf_with_metadata fs self of
        (Inl e, self', out) \<Rightarrow> (Inl e, self', out)
      | (Inr u, self', out) \<Rightarrow> (Inr (pdf_documents self', pdf_metadata self'), self', out))"

subsection \<open>What the specification says of the loaders\<close>

text \<open>The file names a directory load does not pass over.\<close>

definition supported_file :: "pystr \<Rightarrow> bool" where
  "supported_file file = (endswith file (str ''.txt'') \<or> endswith file (str ''.pdf''))"

text \<open>
  The pages the metadata-aware loader is to keep, given the texts extracted from the pages
  in order: the numbers, counted from 0, of the pages whose text is not blank.
\<close>

definition retained_pages :: "pystr list \<Rightarrow> nat list" where
  "retained_pages texts = filter (\<lambda>i. py_strip (texts ! i) \<noteq> []) [0..<length texts]"

section \<open>An example file system\<close>

text \<open>
  A directory \<open>docs\<close> with a text file, a PDF of three pages (the second blank), a file
  of another kind and a PDF without text.
\<close>

definition example_report :: PdfReader where
  "example_report =
     \<lparr>pages = [Inr (str ''world''), Inr (str '' ''), Inr (str ''again'')],
      reader_metadata = Some [str ''/Title'' \<mapsto> str ''Report'']\<rparr>"

definition example_blank :: PdfReader where
  "example_blank = \<lparr>pages = [Inr (str '' ''), Inr []], reader_metadata = None\<rparr>"

definition example_fs :: filesystem where
  "example_fs =
     \<lparr>isdir = (\<lambda>p. p = str ''docs''),
      isfile = (\<lambda>p. p \<in> {str ''docs/a.txt'', str ''docs/b.pdf'', str ''docs/notes.md'',
                          str ''docs/blank.pdf''}),
      read_text = (\<lambda>p enc. if p = str ''docs/a.txt'' then Inr (str ''hello'')
                             else if p = str ''docs/notes.md'' then Inr (str ''notes'')
                             else Inl (Exc ''OSError'' (str ''cannot read''))),
      read_pdf = (\<lambda>p. if p = str ''docs/b.pdf'' then Inr example_report
                        else if p = str ''docs/blank.pdf'' then Inr example_blank
                        else Inl (Exc ''PdfReadError'' (str ''not a PDF file''))),
      walk = (\<lambda>p. if p = str ''docs''
                    then [(str ''docs'', [],
                           [str ''a.txt'', str ''b.pdf'', str ''notes.md'', str ''blank.pdf''])]
                    else [])\<rparr>"

text \<open>
  The same file system with one more PDF, \<open>scan.pdf\<close>: two pages of text and no
  information dictionary.
\<close>

definition example_noinfo :: PdfReader where
  "example_noinfo = \<lparr>pages = [Inr (str ''one''), Inr (str ''two'')], reader_metadata = None\<rparr>"

definition example_noinfo_fs :: filesystem where
  "example_noinfo_fs =
     example_fs\<lparr>read_pdf := (\<lambda>p. if p = str ''scan.pdf'' then Inr example_noinfo
                                  else read_pdf example_fs p)\<rparr>"

section \<open>Properties of the splitter\<close>

subsection \<open>Offsets, chunks and their count\<close>

lemma range_values_pos:
  "0 < step \<Longrightarrow> range_values start stop step =
     (if start < stop then start # range_values (start + step) stop step else [])"
  by (subst range_values.simps) simp

lemma split_loop_map:
  "split_loop self text chunks offs = chunks @ map (\<lambda>i. py_slice text i (i + chunk_size self)) offs"
  by (induction offs arbitrary: chunks) simp_all

lemma ceil_div_step:
  fixes d :: int
  assumes "0 < d" "a < b"
  shows "nat (- ((a - b) div d)) = Suc (nat (- ((a + d - b) div d)))"
proof -
  have "(a + d - b) div d = (a - b) div d + 1"
    using assms by (metis add.commute add_diff_eq div_add_self1 less_irrefl)
  moreover have "(a - b) div d < 0"
    using assms by (simp add: div_neg_pos_less0)
  ultimately show ?thesis by simp
qed

lemma range_values_up:
  "0 < d \<Longrightarrow> range_values a b d = map (\<lambda>j. a + int j * d) [0..<nat (- ((a - b) div d))]"
proof (induction a b d rule: range_values.induct)
  case (1 start stop step)
  show ?case
  proof (cases "start < stop")
    case True
    have n: "nat (- ((start - stop) div step)) = Suc (nat (- ((start + step - stop) div step)))"
      using ceil_div_step [OF "1.prems" True] .
    have "range_values start stop step = start # range_values (start + step) stop step"
      using "1.prems" True by (subst range_values.simps) simp
    also have "range_values (start + step) stop step
        = map (\<lambda>j. start + step + int j * step) [0..<nat (- ((start + step - stop) div step))]"
      using "1.IH"(1) "1.prems" True by simp
    finally show ?thesis
      unfolding n by (simp add: upt_conv_Cons map_Suc_upt [symmetric] algebra_simps del: upt_Suc)
  next
    case False
    then have "0 \<le> (start - stop) div step"
      using "1.prems" by (simp add: pos_imp_zdiv_nonneg_iff)
    then show ?thesis
      using "1.prems" False by (subst range_values.simps) simp
  qed
qed

lemma split_closed_form:
  assumes "chunk_overlap self < chunk_size self"
  shows "split self text =
    Inr (map (\<lambda>j. py_slice text (int j * (chunk_size self - chunk_overlap self))
                     (int j * (chunk_size self - chunk_overlap self) + chunk_size self))
          [0..<nat (- ((- int (length text)) div (chunk_size self - chunk_overlap self)))])"
proof -
  define d where "d = chunk_size self - chunk_overlap self"
  have d: "0 < d" using assms by (simp add: d_def)
  have r: "range_values 0 (int (length text)) d
      = map (\<lambda>j. int j * d) [0..<nat (- ((- int (length text)) div d))]"
    using range_values_up [OF d, of 0 "int (length text)"] by simp
  have "split self text = Inr (split_loop self text [] (range_values 0 (int (length text)) d))"
    using d by (simp add: split_def py_range_def d_def)
  also have "\<dots> = Inr (map (\<lambda>i. py_slice text i (i + chunk_size self))
      (map (\<lambda>j. int j * d) [0..<nat (- ((- int (length text)) div d))]))"
    unfolding r by (simp only: split_loop_map append_Nil)
  finally show ?thesis
    unfolding d_def by (simp only: map_map comp_def)
qed

lemma neg_div_decomp:
  fixes d :: int
  assumes "0 < d"
  shows "\<exists>r. 0 \<le> r \<and> r < d \<and> (- ((- L) div d)) * d = L + r"
proof -
  define q where "q = (- L) div d"
  define r where "r = (- L) mod d"
  have "d * q + r = - L" unfolding q_def r_def by (rule mult_div_mod_eq)
  moreover have "(- q) * d = - (d * q)" by simp
  ultimately have "(- q) * d = L + r" by linarith
  moreover have "0 \<le> r" "r < d" using assms by (simp_all add: r_def)
  ultimately show ?thesis unfolding q_def by blast
qed

lemma chunk_count_nonneg:
  fixes d :: int
  assumes "0 < d"
  shows "0 \<le> - ((- int len) div d)"
proof (rule ccontr)
  define c where "c = - ((- int len) div d)"
  assume "\<not> 0 \<le> - ((- int len) div d)"
  then have "c \<le> - 1" by (simp add: c_def)
  then have "c * d \<le> (- 1) * d"
    using assms by (intro mult_right_mono) simp_all
  moreover obtain r where "0 \<le> r" "c * d = int len + r"
    using neg_div_decomp [OF assms, of "int len"] unfolding c_def by blast
  ultimately show False using assms by linarith
qed

lemma chunk_count_covers:
  fixes d :: int
  assumes "0 < d"
  shows "int len \<le> (- ((- int len) div d)) * d"
  using neg_div_decomp [OF assms, of "int len"] by auto

lemma offset_in_range:
  fixes d :: int
  assumes "0 < d" "int j < - ((- int len) div d)"
  shows "int j * d < int len"
proof -
  have "int j + 1 \<le> - ((- int len) div d)" using assms(2) by simp
  then have "(int j + 1) * d \<le> (- ((- int len) div d)) * d"
    using assms(1) by (intro mult_right_mono) simp_all
  moreover obtain r where "r < d" "(- ((- int len) div d)) * d = int len + r"
    using neg_div_decomp [OF assms(1)] by blast
  ultimately show ?thesis by (simp add: algebra_simps)
qed



lemma py_slice_take_drop:
  assumes "0 \<le> i" "i < int (length xs)" "0 \<le> n"
  shows "py_slice xs i (i + n) = take (nat n) (drop (nat i) xs)"
proof (cases "i + n < int (length xs)")
  case True
  then show ?thesis
    using assms by (simp add: py_slice_def adjust_index_def Let_def)
next
  case False
  then have "int (length xs) - i \<le> n" by simp
  then have "length (drop (nat i) xs) \<le> nat n" using assms by simp
  then show ?thesis
    using assms False by (simp add: py_slice_def adjust_index_def Let_def)
qed



lemma chunk_count_pos:
  fixes d :: int
  assumes "0 < d" "0 < len"
  shows "0 < nat (- ((- int len) div d))"
proof -
  define c where "c = - ((- int len) div d)"
  have "int len \<le> c * d" unfolding c_def by (rule chunk_count_covers [OF assms(1)])
  then have "0 < c * d" using assms(2) by linarith
  then have "0 < c" using assms(1) by (rule zero_less_mult_pos2)
  then show ?thesis by (simp add: c_def)
qed

lemma chunk_count_one_iff:
  fixes d :: int
  assumes "0 < d" "0 < len"
  shows "(nat (- ((- int len) div d)) = Suc 0) = (int len \<le> d)"
proof
  assume "nat (- ((- int len) div d)) = Suc 0"
  then have "- ((- int len) div d) = 1" by simp
  then show "int len \<le> d" using chunk_count_covers [OF assms(1), of len] by simp
next
  assume le: "int len \<le> d"
  have pos: "0 < nat (- ((- int len) div d))" by (rule chunk_count_pos [OF assms])
  have "\<not> 1 < nat (- ((- int len) div d))"
  proof
    assume "1 < nat (- ((- int len) div d))"
    then have "int 1 < - ((- int len) div d)" by simp
    then have "int 1 * d < int len" by (rule offset_in_range [OF assms(1)])
    then show False using le by simp
  qed
  then show "nat (- ((- int len) div d)) = Suc 0" using pos by simp
qed



lemma tiles_prefix:
  "take (d + k) text @ concat (map (\<lambda>j. drop k (take (d + k) (drop (j * d) text))) [Suc 0..<Suc m])
     = take (d + k + m * d) text"
proof (induction m)
  case 0
  show ?case by simp
next
  case (Suc m)
  have piece: "drop k (take (d + k) (drop (Suc m * d) text)) = take d (drop (d + k + m * d) text)"
    by (simp add: drop_take add_ac)
  have "take (d + k) text @ concat (map (\<lambda>j. drop k (take (d + k) (drop (j * d) text))) [Suc 0..<Suc (Suc m)])
      = (take (d + k) text @ concat (map (\<lambda>j. drop k (take (d + k) (drop (j * d) text))) [Suc 0..<Suc m]))
        @ drop k (take (d + k) (drop (Suc m * d) text))"
    by simp
  also have "\<dots> = take (d + k + m * d) text @ take d (drop (d + k + m * d) text)"
    unfolding Suc.IH piece ..
  also have "\<dots> = take (d + k + m * d + d) text"
    by (rule take_add [symmetric])
  finally show ?case by (simp add: add.commute add.left_commute)
qed

lemma split_chunks_nth:
  assumes "chunk_overlap self < chunk_size self"
  shows "\<exists>chunks. split self text = Inr chunks
     \<and> length chunks = nat (- ((- int (length text)) div (chunk_size self - chunk_overlap self)))
     \<and> (\<forall>i<length chunks.
           int i * (chunk_size self - chunk_overlap self) < int (length text)
         \<and> chunks ! i = py_slice text (int i * (chunk_size self - chunk_overlap self))
                           (int i * (chunk_size self - chunk_overlap self) + chunk_size self))"
proof -
  have d: "0 < chunk_size self - chunk_overlap self" using assms by simp
  show ?thesis
    using offset_in_range [OF d, of _ "length text"]
    by (simp add: split_closed_form [OF assms])
qed

lemma chunk_as_take_drop:
  assumes "0 < d" "0 \<le> n" "int i * d < int (length text)"
  shows "py_slice text (int i * d) (int i * d + n) = take (nat n) (drop (i * nat d) text)"
proof -
  have "py_slice text (int i * d) (int i * d + n) = take (nat n) (drop (nat (int i * d)) text)"
    using assms by (intro py_slice_take_drop) simp_all
  moreover have "nat (int i * d) = i * nat d"
    by (simp add: nat_mult_distrib)
  ultimately show ?thesis by simp
qed

lemma reconstruct_split:
  assumes "0 \<le> chunk_overlap self" "chunk_overlap self < chunk_size self"
    and "split self text = Inr chunks"
  shows "reconstruct (chunk_overlap self) chunks = text"
proof -
  define d where "d = chunk_size self - chunk_overlap self"
  define m where "m = nat (- ((- int (length text)) div d))"
  define k' where "k' = nat (chunk_overlap self)"
  define d' where "d' = nat d"
  have d: "0 < d" using assms(2) by (simp add: d_def)
  have n: "nat (chunk_size self) = d' + k'"
    using assms(1,2) by (simp add: d'_def k'_def d_def)
  have n0: "0 \<le> chunk_size self" using assms(1,2) by simp
  have "split self text = Inr (map (\<lambda>j. py_slice text (int j * d) (int j * d + chunk_size self)) [0..<m])"
    unfolding m_def d_def by (rule split_closed_form [OF assms(2)])
  moreover have "map (\<lambda>j. py_slice text (int j * d) (int j * d + chunk_size self)) [0..<m]
      = map (\<lambda>j. take (d' + k') (drop (j * d') text)) [0..<m]"
  proof (rule map_cong [OF refl])
    fix j assume "j \<in> set [0..<m]"
    then have "int j < - ((- int (length text)) div d)" by (simp add: m_def)
    then have "int j * d < int (length text)" by (rule offset_in_range [OF d])
    then show "py_slice text (int j * d) (int j * d + chunk_size self) = take (d' + k') (drop (j * d') text)"
      using chunk_as_take_drop [OF d n0] by (simp add: n d'_def)
  qed
  ultimately have chunks: "chunks = map (\<lambda>j. take (d' + k') (drop (j * d') text)) [0..<m]"
    using assms(3) by simp
  show ?thesis
  proof (cases m)
    case 0
    define c where "c = - ((- int (length text)) div d)"
    have "int (length text) \<le> c * d"
      unfolding c_def by (rule chunk_count_covers [OF d])
    moreover have "c \<le> 0" using 0 by (simp add: m_def c_def)
    then have "c * d \<le> 0 * d" using d by (intro mult_right_mono) simp_all
    ultimately have "int (length text) \<le> 0" by linarith
    then show ?thesis using chunks 0 by simp
  next
    case (Suc m')
    have cover: "length text \<le> d' + k' + m' * d'"
    proof -
      define c where "c = - ((- int (length text)) div d)"
      have "int (length text) \<le> c * d"
        unfolding c_def by (rule chunk_count_covers [OF d])
      moreover have "c = int m"
        using Suc by (simp add: m_def c_def)
      moreover have "d = int d'" using d by (simp add: d'_def)
      ultimately have "int (length text) \<le> int (m * d')" by simp
      then have "length text \<le> m * d'" by (simp only: of_nat_le_iff)
      then show ?thesis using Suc by simp
    qed
    have "[0..<m] = 0 # [Suc 0..<Suc m']" using Suc by (simp add: upt_conv_Cons)
    then have "reconstruct (chunk_overlap self) chunks
        = take (d' + k') text @ concat (map (\<lambda>j. drop k' (take (d' + k') (drop (j * d') text))) [Suc 0..<Suc m'])"
      unfolding chunks by (simp add: comp_def k'_def del: upt_Suc)
    also have "\<dots> = take (d' + k' + m' * d') text" by (rule tiles_prefix)
    also have "\<dots> = text" using cover by simp
    finally show ?thesis .
  qed
qed

lemma split_returns:
  assumes "chunk_overlap self < chunk_size self"
  shows "\<exists>cs. split self text = Inr cs"
  using split_closed_form [OF assms] by blast

lemma split_texts_loop_concat:
  assumes "chunk_overlap self < chunk_size self"
  shows "\<exists>css. list_all2 (\<lambda>t cs. split self t = Inr cs) texts css
     \<and> split_texts_loop self chunks texts = Inr (chunks @ concat css)"
proof (induction texts arbitrary: chunks)
  case Nil
  show ?case by simp
next
  case (Cons t texts)
  obtain cs where cs: "split self t = Inr cs"
    using split_returns [OF assms] by blast
  obtain css where css: "list_all2 (\<lambda>t cs. split self t = Inr cs) texts css"
    and loop: "split_texts_loop self (chunks @ cs) texts = Inr ((chunks @ cs) @ concat css)"
    using Cons.IH [of "chunks @ cs"] by blast
  have "list_all2 (\<lambda>t cs. split self t = Inr cs) (t # texts) (cs # css)"
    using cs css by simp
  moreover have "split_texts_loop self chunks (t # texts) = Inr (chunks @ concat (cs # css))"
    using cs loop by simp
  ultimately show ?case by blast
qed

subsection \<open>The number of chunks\<close>

text \<open>
  C1, as the specification states it, fails on its own example: the code returns the four
  chunks of offsets 0, 3, 6, 9, and the formula gives three.
\<close>

theorem split_chunk_count_counterexample:
  "split \<lparr>chunk_size = 4, chunk_overlap = 1\<rparr> ''abcdefghij''
     = Inr [''abcd'', ''defg'', ''ghij'', ''j'']
   \<and> spec_chunk_count (length ''abcdefghij'') 4 1 = 3
   \<and> int (length [''abcd'', ''defg'', ''ghij'', ''j''])
       \<noteq> spec_chunk_count (length ''abcdefghij'') 4 1"
  by (simp add: split_def py_range_def range_values_pos py_slice_def adjust_index_def
        spec_chunk_count_def)

text \<open>
  C1, amended: for every text and every configuration with \<open>chunk_size > chunk_overlap\<close>,
  \<open>split\<close> returns \<open>ceil(len(text) / (chunk_size - chunk_overlap))\<close> chunks: one for each
  start offset below the length of the text. No chunk is returned exactly when the text is
  empty.
\<close>

theorem split_chunk_count:
  assumes "chunk_overlap self < chunk_size self"
  shows "\<exists>chunks. split self text = Inr chunks
     \<and> int (length chunks)
         = \<lceil>real (length text) / real_of_int (chunk_size self - chunk_overlap self)\<rceil>
     \<and> (chunks = []) = (text = [])"
proof -
  define d where "d = chunk_size self - chunk_overlap self"
  define m where "m = nat (- ((- int (length text)) div d))"
  have d: "0 < d" using assms by (simp add: d_def)
  obtain chunks where sp: "split self text = Inr chunks" and len: "length chunks = m"
    using split_chunks_nth [OF assms, of "text"] unfolding m_def d_def by blast
  have "\<lceil>real (length text) / real_of_int d\<rceil> = - ((- int (length text)) div d)"
    using ceiling_divide_eq_div [of "int (length text)" d, where ?'a = real] by simp
  also have "\<dots> = int m"
    using chunk_count_nonneg [OF d, of "length text"] by (simp add: m_def)
  finally have count: "int (length chunks) = \<lceil>real (length text) / real_of_int d\<rceil>"
    using len by simp
  have "(m = 0) = (length text = 0)"
  proof (cases "length text = 0")
    case True
    then show ?thesis by (simp add: m_def)
  next
    case False
    then have "0 < m" unfolding m_def by (intro chunk_count_pos [OF d]) simp
    then show ?thesis using False by simp
  qed
  then have "(chunks = []) = (text = [])" using len by (metis length_0_conv)
  then show ?thesis using sp count unfolding d_def by blast
qed

theorem split_chunk_count_witness:
  "chunk_overlap \<lparr>chunk_size = 4, chunk_overlap = 1\<rparr> < chunk_size \<lparr>chunk_size = 4, chunk_overlap = 1\<rparr>
   \<and> (\<exists>chunks. split \<lparr>chunk_size = 4, chunk_overlap = 1\<rparr> ''abcdefghij'' = Inr chunks
         \<and> int (length chunks) = 4 \<and> chunks \<noteq> [])"
proof -
  have h: "chunk_overlap \<lparr>chunk_size = 4, chunk_overlap = 1\<rparr> < chunk_size \<lparr>chunk_size = 4, chunk_overlap = 1\<rparr>"
    by simp
  show ?thesis
    using h split_chunk_count [OF h, of "''abcdefghij''"] by simp
qed

subsection \<open>Short texts\<close>

text \<open>
  C2, as the specification states it, fails: a text of four characters with
  \<open>chunk_size = 4\<close> and \<open>chunk_overlap = 1\<close> gives two chunks, since the offset 3 is still
  below the length of the text.
\<close>

theorem split_short_text_counterexample:
  "''abcd'' \<noteq> [] \<and> (1::int) < 4 \<and> int (length ''abcd'') \<le> 4
   \<and> split \<lparr>chunk_size = 4, chunk_overlap = 1\<rparr> ''abcd'' = Inr [''abcd'', ''d'']
   \<and> split \<lparr>chunk_size = 4, chunk_overlap = 1\<rparr> ''abcd'' \<noteq> Inr [''abcd'']"
  by (simp add: split_def py_range_def range_values_pos py_slice_def adjust_index_def)

text \<open>
  C2, amended: for every non-empty text and every configuration with
  \<open>chunk_size > chunk_overlap\<close>, if \<open>len(text) <= chunk_size\<close> then the first chunk of
  \<open>split(text)\<close> is the text itself, and it is the only chunk exactly when
  \<open>len(text) <= chunk_size - chunk_overlap\<close>.
\<close>

theorem split_short_text:
  assumes "text \<noteq> []" "chunk_overlap self < chunk_size self" "int (length text) \<le> chunk_size self"
  shows "\<exists>rest. split self text = Inr (text # rest)
     \<and> (rest = []) = (int (length text) \<le> chunk_size self - chunk_overlap self)"
proof -
  define d where "d = chunk_size self - chunk_overlap self"
  define m where "m = nat (- ((- int (length text)) div d))"
  define f where "f = (\<lambda>j. py_slice text (int j * d) (int j * d + chunk_size self))"
  have d: "0 < d" using assms(2) by (simp add: d_def)
  have len: "0 < length text" using assms(1) by simp
  have m: "0 < m" unfolding m_def by (rule chunk_count_pos [OF d len])
  have sp: "split self text = Inr (map f [0..<m])"
    unfolding f_def m_def d_def by (rule split_closed_form [OF assms(2)])
  have upt: "[0..<m] = 0 # [Suc 0..<m]" using m by (simp add: upt_conv_Cons)
  have "f 0 = py_slice text 0 (0 + chunk_size self)" by (simp add: f_def)
  also have "\<dots> = take (nat (chunk_size self)) (drop (nat 0) text)"
    using len assms(3) by (intro py_slice_take_drop) simp_all
  also have "\<dots> = text" using assms(3) by simp
  finally have f0: "f 0 = text" .
  have "(map f [Suc 0..<m] = []) = (m = Suc 0)" using m by auto
  also have "\<dots> = (int (length text) \<le> d)"
    unfolding m_def by (rule chunk_count_one_iff [OF d len])
  finally have "(map f [Suc 0..<m] = []) = (int (length text) \<le> chunk_size self - chunk_overlap self)"
    by (simp add: d_def)
  moreover have "split self text = Inr (text # map f [Suc 0..<m])"
    using sp upt f0 by simp
  ultimately show ?thesis by blast
qed

theorem split_short_text_witness:
  "''abc'' \<noteq> [] \<and> (1::int) < 4 \<and> int (length ''abc'') \<le> 4
   \<and> split \<lparr>chunk_size = 4, chunk_overlap = 1\<rparr> ''abc'' = Inr [''abc'']
   \<and> (\<exists>rest. split \<lparr>chunk_size = 4, chunk_overlap = 1\<rparr> ''abcd'' = Inr (''abcd'' # rest) \<and> rest \<noteq> [])"
  using split_short_text [of "''abc''" "\<lparr>chunk_size = 4, chunk_overlap = 1\<rparr>"]
    split_short_text [of "''abcd''" "\<lparr>chunk_size = 4, chunk_overlap = 1\<rparr>"]
  by simp

subsection \<open>Chunks tile the text\<close>

text \<open>
  C3, as the specification states it, fails for a negative overlap, which the constructor
  accepts: with \<open>chunk_size = 2\<close> and \<open>chunk_overlap = -1\<close> the offsets advance by three,
  the characters at the offsets 2 and 5 are in no chunk, and no text can be rebuilt from
  the chunks.
\<close>

theorem split_tiles_text_counterexample:
  "CharacterTextSplitter_init 2 (- 1) = Inr \<lparr>chunk_size = 2, chunk_overlap = - 1\<rparr>
   \<and> split \<lparr>chunk_size = 2, chunk_overlap = - 1\<rparr> ''abcdef'' = Inr [''ab'', ''de'']
   \<and> reconstruct (- 1) [''ab'', ''de''] \<noteq> ''abcdef''
   \<and> CHR ''c'' \<notin> set (concat [''ab'', ''de''])"
  by (simp add: CharacterTextSplitter_init_def split_def py_range_def range_values_pos
        py_slice_def adjust_index_def)

text \<open>
  C3, amended: for every text and every configuration with \<open>chunk_size > chunk_overlap\<close>,
  the \<open>i\<close>-th chunk of \<open>split(text)\<close> is the slice of the text that starts at the offset
  \<open>i * (chunk_size - chunk_overlap)\<close>, an offset inside the text, and has up to
  \<open>chunk_size\<close> characters; and when moreover \<open>chunk_overlap\<close> is not negative, the first
  chunk followed by every later chunk without its first \<open>chunk_overlap\<close> characters is the
  text.
\<close>

theorem split_tiles_text:
  assumes "chunk_overlap self < chunk_size self"
  shows "\<exists>chunks. split self text = Inr chunks
     \<and> (\<forall>i<length chunks.
           int i * (chunk_size self - chunk_overlap self) < int (length text)
         \<and> chunks ! i = py_slice text (int i * (chunk_size self - chunk_overlap self))
                           (int i * (chunk_size self - chunk_overlap self) + chunk_size self)
         \<and> (0 \<le> chunk_size self \<longrightarrow>
               chunks ! i = take (nat (chunk_size self))
                              (drop (i * nat (chunk_size self - chunk_overlap self)) text)))
     \<and> (0 \<le> chunk_overlap self \<longrightarrow> reconstruct (chunk_overlap self) chunks = text)"
proof -
  have d: "0 < chunk_size self - chunk_overlap self" using assms by simp
  obtain chunks where sp: "split self text = Inr chunks"
    and nth: "\<forall>i<length chunks.
           int i * (chunk_size self - chunk_overlap self) < int (length text)
         \<and> chunks ! i = py_slice text (int i * (chunk_size self - chunk_overlap self))
                           (int i * (chunk_size self - chunk_overlap self) + chunk_size self)"
    using split_chunks_nth [OF assms, of "text"] by blast
  have "0 \<le> chunk_overlap self \<longrightarrow> reconstruct (chunk_overlap self) chunks = text"
    using reconstruct_split [OF _ assms sp] by blast
  moreover have "\<forall>i<length chunks. 0 \<le> chunk_size self \<longrightarrow>
      chunks ! i = take (nat (chunk_size self)) (drop (i * nat (chunk_size self - chunk_overlap self)) text)"
  proof (intro allI impI)
    fix i
    assume i: "i < length chunks" and n: "0 \<le> chunk_size self"
    have "int i * (chunk_size self - chunk_overlap self) < int (length text)"
      using nth i by blast
    then have "py_slice text (int i * (chunk_size self - chunk_overlap self))
          (int i * (chunk_size self - chunk_overlap self) + chunk_size self)
        = take (nat (chunk_size self)) (drop (i * nat (chunk_size self - chunk_overlap self)) text)"
      by (rule chunk_as_take_drop [OF d n])
    then show "chunks ! i = take (nat (chunk_size self))
        (drop (i * nat (chunk_size self - chunk_overlap self)) text)"
      using nth i by simp
  qed
  ultimately show ?thesis using sp nth by blast
qed

theorem split_tiles_text_witness:
  "chunk_overlap \<lparr>chunk_size = 4, chunk_overlap = 1\<rparr> < chunk_size \<lparr>chunk_size = 4, chunk_overlap = 1\<rparr>
   \<and> (\<exists>chunks. split \<lparr>chunk_size = 4, chunk_overlap = 1\<rparr> ''abcdefghij'' = Inr chunks
        \<and> chunks ! 2 = take 4 (drop 6 ''abcdefghij'')
        \<and> reconstruct 1 chunks = ''abcdefghij'')"
proof -
  have h: "chunk_overlap \<lparr>chunk_size = 4, chunk_overlap = 1\<rparr> < chunk_size \<lparr>chunk_size = 4, chunk_overlap = 1\<rparr>"
    by simp
  obtain chunks where sp: "split \<lparr>chunk_size = 4, chunk_overlap = 1\<rparr> ''abcdefghij'' = Inr chunks"
    and rec: "reconstruct 1 chunks = ''abcdefghij''"
    using split_tiles_text [OF h, of "''abcdefghij''"] by auto
  have "split \<lparr>chunk_size = 4, chunk_overlap = 1\<rparr> ''abcdefghij'' = Inr [''abcd'', ''defg'', ''ghij'', ''j'']"
    by (simp add: split_def py_range_def range_values_pos py_slice_def adjust_index_def)
  then have "chunks ! 2 = take 4 (drop 6 ''abcdefghij'')" using sp by simp
  then show ?thesis using h sp rec by blast
qed

subsection \<open>The example of the specification\<close>

text \<open>
  C4: \<open>split("abcdefghij")\<close> with \<open>chunk_size = 4\<close> and \<open>chunk_overlap = 1\<close> is
  \<open>["abcd", "defg", "ghij", "j"]\<close>, the slices taken at the offsets 0, 3, 6, 9 that
  \<open>range(0, 10, 3)\<close> yields.
\<close>

theorem split_example_abcdefghij:
  "CharacterTextSplitter_init 4 1 = Inr \<lparr>chunk_size = 4, chunk_overlap = 1\<rparr>
   \<and> py_range 0 (int (length ''abcdefghij'')) (4 - 1) = Inr [0, 3, 6, 9]
   \<and> split \<lparr>chunk_size = 4, chunk_overlap = 1\<rparr> ''abcdefghij''
       = Inr [''abcd'', ''defg'', ''ghij'', ''j'']"
  by (simp add: CharacterTextSplitter_init_def split_def py_range_def range_values_pos
        py_slice_def adjust_index_def)

subsection \<open>Several texts\<close>

text \<open>
  C5: for every list of texts and every configuration with \<open>chunk_size > chunk_overlap\<close>,
  \<open>split_texts(texts)\<close> is the concatenation, in the order of the texts, of what \<open>split\<close>
  returns for each text; every chunk of the result is a chunk of one of the texts; and
  \<open>split_texts([a, b])\<close> is \<open>split(a) + split(b)\<close>.
\<close>

theorem split_texts_concat:
  assumes "chunk_overlap self < chunk_size self"
  shows "(\<exists>css. list_all2 (\<lambda>t cs. split self t = Inr cs) texts css
           \<and> split_texts self texts = Inr (concat css)
           \<and> (\<forall>c\<in>set (concat css). \<exists>t\<in>set texts. \<exists>cs. split self t = Inr cs \<and> c \<in> set cs))
     \<and> (\<exists>ca cb. split self a = Inr ca \<and> split self b = Inr cb
           \<and> split_texts self [a, b] = Inr (ca @ cb))"
proof
  obtain css where css: "list_all2 (\<lambda>t cs. split self t = Inr cs) texts css"
    and st: "split_texts self texts = Inr (concat css)"
    using split_texts_loop_concat [OF assms, of texts "[]"] by (auto simp: split_texts_def)
  have "\<forall>c\<in>set (concat css). \<exists>t\<in>set texts. \<exists>cs. split self t = Inr cs \<and> c \<in> set cs"
  proof
    fix c assume "c \<in> set (concat css)"
    then obtain cs where cs: "cs \<in> set css" "c \<in> set cs" by auto
    obtain i where i: "i < length css" "css ! i = cs"
      using cs(1) by (auto simp: in_set_conv_nth)
    have len: "length texts = length css" using css by (rule list_all2_lengthD)
    have "split self (texts ! i) = Inr (css ! i)"
      using css i(1) by (simp add: list_all2_conv_all_nth)
    moreover have "texts ! i \<in> set texts" using i(1) len by simp
    ultimately obtain t where "t \<in> set texts" "split self t = Inr cs"
      using i(2) by blast
    then show "\<exists>t\<in>set texts. \<exists>cs. split self t = Inr cs \<and> c \<in> set cs"
      using cs by blast
  qed
  then show "\<exists>css. list_all2 (\<lambda>t cs. split self t = Inr cs) texts css
           \<and> split_texts self texts = Inr (concat css)
           \<and> (\<forall>c\<in>set (concat css). \<exists>t\<in>set texts. \<exists>cs. split self t = Inr cs \<and> c \<in> set cs)"
    using css st by blast
next
  obtain ca where ca: "split self a = Inr ca" using split_returns [OF assms] by blast
  obtain cb where cb: "split self b = Inr cb" using split_returns [OF assms] by blast
  have "split_texts self [a, b] = Inr (ca @ cb)"
    using ca cb by (simp add: split_texts_def)
  then show "\<exists>ca cb. split self a = Inr ca \<and> split self b = Inr cb
      \<and> split_texts self [a, b] = Inr (ca @ cb)"
    using ca cb by blast
qed

theorem split_texts_concat_witness:
  "chunk_overlap \<lparr>chunk_size = 4, chunk_overlap = 1\<rparr> < chunk_size \<lparr>chunk_size = 4, chunk_overlap = 1\<rparr>
   \<and> split \<lparr>chunk_size = 4, chunk_overlap = 1\<rparr> ''abcde'' = Inr [''abcd'', ''de'']
   \<and> split \<lparr>chunk_size = 4, chunk_overlap = 1\<rparr> ''xy'' = Inr [''xy'']
   \<and> split_texts \<lparr>chunk_size = 4, chunk_overlap = 1\<rparr> [''abcde'', ''xy'']
       = Inr ([''abcd'', ''de''] @ [''xy''])"
proof -
  have h: "chunk_overlap \<lparr>chunk_size = 4, chunk_overlap = 1\<rparr> < chunk_size \<lparr>chunk_size = 4, chunk_overlap = 1\<rparr>"
    by simp
  have a: "split \<lparr>chunk_size = 4, chunk_overlap = 1\<rparr> ''abcde'' = Inr [''abcd'', ''de'']"
    by (simp add: split_def py_range_def range_values_pos py_slice_def adjust_index_def)
  have b: "split \<lparr>chunk_size = 4, chunk_overlap = 1\<rparr> ''xy'' = Inr [''xy'']"
    by (simp add: split_def py_range_def range_values_pos py_slice_def adjust_index_def)
  have "split_texts \<lparr>chunk_size = 4, chunk_overlap = 1\<rparr> [''abcde'', ''xy'']
       = Inr ([''abcd'', ''de''] @ [''xy''])"
    using split_texts_concat [OF h, of "[]" "''abcde''" "''xy''"] a b by auto
  then show ?thesis using h a b by blast
qed

subsection \<open>Construction\<close>

text \<open>
  C6: for every pair of integers, \<open>CharacterTextSplitter(chunk_size, chunk_overlap)\<close>
  returns a splitter, with these two fields, exactly when \<open>chunk_size > chunk_overlap\<close>;
  otherwise the assertion fails: \<open>AssertionError\<close> is raised and no splitter is returned.
\<close>

theorem splitter_init_iff:
  "((\<exists>self. CharacterTextSplitter_init n k = Inr self) = (k < n))
   \<and> (k < n \<longrightarrow> CharacterTextSplitter_init n k = Inr \<lparr>chunk_size = n, chunk_overlap = k\<rparr>)
   \<and> (n \<le> k \<longrightarrow> CharacterTextSplitter_init n k
         = Inl (AssertionError ''Chunk size must be greater than chunk overlap''))"
  by (simp add: CharacterTextSplitter_init_def)

theorem splitter_init_iff_witness:
  "CharacterTextSplitter_init 1000 200 = Inr \<lparr>chunk_size = 1000, chunk_overlap = 200\<rparr>
   \<and> CharacterTextSplitter_init 3 3
       = Inl (AssertionError ''Chunk size must be greater than chunk overlap'')
   \<and> \<not> (\<exists>self. CharacterTextSplitter_init 3 3 = Inr self)"
  using splitter_init_iff [of 1000 200] splitter_init_iff [of 3 3] by simp

section \<open>Properties of the loaders\<close>

subsection \<open>Evaluation on the example\<close>

lemmas example_simps =
  example_fs_def example_report_def example_blank_def str_def newline_def
  py_strip_def py_isspace_def endswith_def os_path_join_def TextFileLoader_init_def

subsection \<open>PDF files without text\<close>

lemma py_strip_empty_iff: "(py_strip s = []) = (\<forall>c\<in>set s. py_isspace c)"
proof -
  have "(py_strip s = []) = (\<forall>c\<in>set (dropWhile py_isspace s). py_isspace c)"
    by (simp add: py_strip_def dropWhile_eq_Nil_conv)
  also have "\<dots> = (dropWhile py_isspace s = [])"
  proof (cases "dropWhile py_isspace s")
    case Nil
    show ?thesis unfolding Nil by simp
  next
    case (Cons y ys)
    have "\<not> py_isspace y"
      using hd_dropWhile [of py_isspace s] by (simp add: Cons)
    then show ?thesis unfolding Cons by simp
  qed
  also have "\<dots> = (\<forall>c\<in>set s. py_isspace c)"
    by (simp add: dropWhile_eq_Nil_conv)
  finally show ?thesis .
qed

lemma extract_pages_texts:
  "extract_pages (map Inr texts) text_content
     = Inr (text_content @ concat (map (\<lambda>t. t @ newline) texts))"
  by (induction texts arbitrary: text_content) simp_all

lemma set_py_join:
  "set (py_join sep ts) = (\<Union>t\<in>set ts. set t) \<union> (if 2 \<le> length ts then set sep else {})"
  by (induction sep ts rule: py_join.induct) auto

lemma blank_join_iff:
  "(py_strip (concat (map (\<lambda>t. t @ newline) texts)) = []) = (py_strip (py_join newline texts) = [])"
proof -
  have nl: "\<forall>c\<in>set newline. py_isspace c" by (simp add: newline_def py_isspace_def)
  show ?thesis
    unfolding py_strip_empty_iff set_py_join using nl by auto
qed

text \<open>
  C8: when a PDF is read without an exception, \<open>load_pdf_file\<close> appends no document and
  prints the warning if the texts of the pages, joined by newlines, are blank, and it
  appends exactly one document, the texts of the pages each followed by a newline, if
  they are not.
\<close>

theorem load_pdf_file_documents:
  assumes "read_pdf fs (path self) = Inr pdf_reader" "pages pdf_reader = map Inr texts"
  shows "load_pdf_file fs self =
     (if py_strip (py_join newline texts) = []
      then (Inr (), self, [str ''Warning: No text content extracted from '' @ path self])
      else (Inr (), self\<lparr>documents := documents self @ [concat (map (\<lambda>t. t @ newline) texts)]\<rparr>, []))"
  using assms blank_join_iff [of texts]
  by (simp add: load_pdf_file_def extract_pages_texts)

theorem load_pdf_file_documents_witness:
  "load_pdf_file example_fs (TextFileLoader_init (str ''docs/blank.pdf'') (str ''utf-8''))
     = (Inr (), TextFileLoader_init (str ''docs/blank.pdf'') (str ''utf-8''),
        [str ''Warning: No text content extracted from docs/blank.pdf''])
   \<and> load_pdf_file example_fs (TextFileLoader_init (str ''docs/b.pdf'') (str ''utf-8''))
     = (Inr (),
        \<lparr>documents = [str ''world'' @ [10, 32, 10] @ str ''again'' @ [10]],
         path = str ''docs/b.pdf'', encoding = str ''utf-8''\<rparr>, [])"
  using load_pdf_file_documents [of example_fs
      "TextFileLoader_init (str ''docs/blank.pdf'') (str ''utf-8'')" example_blank "[str '' '', []]"]
    load_pdf_file_documents [of example_fs
      "TextFileLoader_init (str ''docs/b.pdf'') (str ''utf-8'')" example_report
      "[str ''world'', str '' '', str ''again'']"]
  by (simp add: example_simps)

subsection \<open>Unsupported extensions\<close>

lemma load_directory_file_unsupported:
  assumes "\<not> endswith file (str ''.txt'')" "\<not> endswith file (str ''.pdf'')"
  shows "load_directory_file fs rootdir self file = (Inr (), self, [])"
  using assms by (simp add: load_directory_file_def Let_def)

lemma load_directory_files_filter:
  "load_directory_files fs rootdir self (filter supported_file files)
     = load_directory_files fs rootdir self files"
proof (induction files arbitrary: self)
  case Nil
  show ?case by simp
next
  case (Cons fname fnames)
  show ?case
  proof (cases "supported_file fname")
    case True
    then show ?thesis
      using Cons.IH by (simp split: prod.splits sum.splits)
  next
    case False
    then have "load_directory_file fs rootdir self fname = (Inr (), self, [])"
      by (intro load_directory_file_unsupported) (simp_all add: supported_file_def)
    then show ?thesis
      using False Cons.IH [of self] by (simp split: prod.splits)
  qed
qed

lemma load_directory_walk_filter:
  "load_directory_walk fs self (map (\<lambda>(r, ds, fs'). (r, ds, filter supported_file fs')) entries)
     = load_directory_walk fs self entries"
proof (induction entries arbitrary: self)
  case Nil
  show ?case by simp
next
  case (Cons entry entries)
  obtain r ds fs' where entry: "entry = (r, ds, fs')" by (cases entry) auto
  show ?case
    using Cons.IH
    by (simp add: entry load_directory_files_filter split: prod.splits sum.splits)
qed

text \<open>
  C9: \<open>load\<close> on a path that is a file, not a directory, and ends in neither \<open>.txt\<close> nor
  \<open>.pdf\<close> raises \<open>ValueError\<close> and leaves the loader as it was, so no document is
  produced; in a directory load a file name that ends in neither is passed over, without
  an exception, a document or a printed line, so the load is that of the directory
  without such files.
\<close>

theorem unsupported_extension:
  "(isfile fs (path self) \<and> \<not> isdir fs (path self)
      \<and> \<not> endswith (path self) (str ''.txt'') \<and> \<not> endswith (path self) (str ''.pdf'')
     \<longrightarrow> load fs self
           = (Inl (ValueError ''Provided file is neither a .txt nor .pdf file.''), self, [])
         \<and> load_documents fs self
           = (Inl (ValueError ''Provided file is neither a .txt nor .pdf file.''), self, []))
   \<and> (\<not> endswith file (str ''.txt'') \<and> \<not> endswith file (str ''.pdf'')
     \<longrightarrow> load_directory_file fs rootdir self file = (Inr (), self, []))
   \<and> load_directory fs self
       = load_directory_walk fs self
           (map (\<lambda>(r, ds, fs'). (r, ds, filter supported_file fs')) (walk fs (path self)))"
  by (simp add: load_def load_documents_def load_directory_def load_directory_walk_filter
        load_directory_file_unsupported)

theorem unsupported_extension_witness:
  "load example_fs (TextFileLoader_init (str ''docs/notes.md'') (str ''utf-8''))
     = (Inl (ValueError ''Provided file is neither a .txt nor .pdf file.''),
        TextFileLoader_init (str ''docs/notes.md'') (str ''utf-8''), [])
   \<and> load_directory_file example_fs (str ''docs'')
        (TextFileLoader_init (str ''docs'') (str ''utf-8'')) (str ''notes.md'')
     = (Inr (), TextFileLoader_init (str ''docs'') (str ''utf-8''), [])
   \<and> load_directory example_fs (TextFileLoader_init (str ''docs'') (str ''utf-8''))
     = load_directory_walk example_fs (TextFileLoader_init (str ''docs'') (str ''utf-8''))
         [(str ''docs'', [], [str ''a.txt'', str ''b.pdf'', str ''blank.pdf''])]"
  using unsupported_extension [of example_fs
      "TextFileLoader_init (str ''docs/notes.md'') (str ''utf-8'')" "str ''notes.md''" "str ''docs''"]
    unsupported_extension [of example_fs
      "TextFileLoader_init (str ''docs'') (str ''utf-8'')" "str ''notes.md''" "str ''docs''"]
  by (simp add: example_simps supported_file_def)

subsection \<open>Loading only appends\<close>

lemma load_file_appends:
  "\<exists>r new out. \<forall>ds. load_file fs (self\<lparr>documents := ds\<rparr>)
      = (r, self\<lparr>documents := ds @ new\<rparr>, out)"
proof (cases "read_text fs (path self) (encoding self)")
  case (Inl e)
  then have "\<forall>ds. load_file fs (self\<lparr>documents := ds\<rparr>) = (Inl e, self\<lparr>documents := ds @ []\<rparr>, [])"
    by (simp add: load_file_def)
  then show ?thesis by blast
next
  case (Inr content)
  then have "\<forall>ds. load_file fs (self\<lparr>documents := ds\<rparr>)
      = (Inr (), self\<lparr>documents := ds @ [content]\<rparr>, [])"
    by (simp add: load_file_def)
  then show ?thesis by blast
qed

lemma load_pdf_file_appends:
  "\<exists>r new out. \<forall>ds. load_pdf_file fs (self\<lparr>documents := ds\<rparr>)
      = (r, self\<lparr>documents := ds @ new\<rparr>, out)"
proof -
  define res where "res = (case read_pdf fs (path self) of
              Inl e \<Rightarrow> Inl e
            | Inr pdf_reader \<Rightarrow> extract_pages (pages pdf_reader) [])"
  show ?thesis
  proof (cases res)
    case (Inl e)
    then have "\<forall>ds. load_pdf_file fs (self\<lparr>documents := ds\<rparr>)
        = (Inl e, self\<lparr>documents := ds @ []\<rparr>,
           [str ''Error reading PDF file '' @ path self @ str '': '' @ exc_str e])"
      by (simp add: load_pdf_file_def res_def)
    then show ?thesis by blast
  next
    case (Inr text_content)
    show ?thesis
    proof (cases "py_strip text_content = []")
      case True
      then have "\<forall>ds. load_pdf_file fs (self\<lparr>documents := ds\<rparr>)
          = (Inr (), self\<lparr>documents := ds @ []\<rparr>,
             [str ''Warning: No text content extracted from '' @ path self])"
        using Inr by (simp add: load_pdf_file_def res_def)
      then show ?thesis by blast
    next
      case False
      then have "\<forall>ds. load_pdf_file fs (self\<lparr>documents := ds\<rparr>)
          = (Inr (), self\<lparr>documents := ds @ [text_content]\<rparr>, [])"
        using Inr by (simp add: load_pdf_file_def res_def)
      then show ?thesis by blast
    qed
  qed
qed

lemma load_directory_file_appends:
  "\<exists>r new out. \<forall>ds. load_directory_file fs rootdir (self\<lparr>documents := ds\<rparr>) fname
      = (r, self\<lparr>documents := ds @ new\<rparr>, out)"
proof -
  have a: "endswith fname (str ''.txt'') \<Longrightarrow> ?thesis"
  proof (cases "read_text fs (os_path_join rootdir fname) (encoding self)")
    case (Inl e)
    assume "endswith fname (str ''.txt'')"
    then have "\<forall>ds. load_directory_file fs rootdir (self\<lparr>documents := ds\<rparr>) fname
        = (Inl e, self\<lparr>documents := ds @ []\<rparr>, [])"
      using Inl by (simp add: load_directory_file_def Let_def)
    then show ?thesis by blast
  next
    case (Inr content)
    assume "endswith fname (str ''.txt'')"
    then have "\<forall>ds. load_directory_file fs rootdir (self\<lparr>documents := ds\<rparr>) fname
        = (Inr (), self\<lparr>documents := ds @ [content]\<rparr>, [])"
      using Inr by (simp add: load_directory_file_def Let_def)
    then show ?thesis by blast
  qed
  have b: "\<not> endswith fname (str ''.txt'') \<Longrightarrow> endswith fname (str ''.pdf'') \<Longrightarrow> ?thesis"
  proof -
    assume h: "\<not> endswith fname (str ''.txt'')" "endswith fname (str ''.pdf'')"
    obtain r pdf_loader out where
      run: "load_pdf_file fs (TextFileLoader_init (os_path_join rootdir fname) (encoding self))
              = (r, pdf_loader, out)"
      by (metis prod_cases3)
    show ?thesis
    proof (cases r)
      case (Inl e)
      then have "\<forall>ds. load_directory_file fs rootdir (self\<lparr>documents := ds\<rparr>) fname
          = (Inl e, self\<lparr>documents := ds @ []\<rparr>, out)"
        using h run by (simp add: load_directory_file_def Let_def)
      then show ?thesis by blast
    next
      case (Inr u)
      then have "\<forall>ds. load_directory_file fs rootdir (self\<lparr>documents := ds\<rparr>) fname
          = (Inr (), self\<lparr>documents := ds @ documents pdf_loader\<rparr>, out)"
        using h run by (simp add: load_directory_file_def Let_def)
      then show ?thesis by blast
    qed
  qed
  have c: "\<not> endswith fname (str ''.txt'') \<Longrightarrow> \<not> endswith fname (str ''.pdf'') \<Longrightarrow> ?thesis"
  proof -
    assume "\<not> endswith fname (str ''.txt'')" "\<not> endswith fname (str ''.pdf'')"
    then have "\<forall>ds. load_directory_file fs rootdir (self\<lparr>documents := ds\<rparr>) fname
        = (Inr (), self\<lparr>documents := ds @ []\<rparr>, [])"
      by (simp add: load_directory_file_def Let_def)
    then show ?thesis by blast
  qed
  show ?thesis using a b c by blast
qed

lemma load_directory_files_appends:
  "\<exists>r new out. \<forall>ds. load_directory_files fs rootdir (self\<lparr>documents := ds\<rparr>) files
      = (r, self\<lparr>documents := ds @ new\<rparr>, out)"
proof (induction files)
  case Nil
  have "\<forall>ds. load_directory_files fs rootdir (self\<lparr>documents := ds\<rparr>) []
      = (Inr (), self\<lparr>documents := ds @ []\<rparr>, [])"
    by simp
  then show ?case by blast
next
  case (Cons fname fnames)
  obtain r1 new1 out1 where one: "\<And>ds. load_directory_file fs rootdir (self\<lparr>documents := ds\<rparr>) fname
      = (r1, self\<lparr>documents := ds @ new1\<rparr>, out1)"
    using load_directory_file_appends [of fs rootdir self fname] by blast
  obtain r2 new2 out2 where rest: "\<And>ds. load_directory_files fs rootdir (self\<lparr>documents := ds\<rparr>) fnames
      = (r2, self\<lparr>documents := ds @ new2\<rparr>, out2)"
    using Cons.IH by blast
  show ?case
  proof (cases r1)
    case (Inl e)
    then have "\<forall>ds. load_directory_files fs rootdir (self\<lparr>documents := ds\<rparr>) (fname # fnames)
        = (Inl e, self\<lparr>documents := ds @ new1\<rparr>, out1)"
      by (simp add: one)
    then show ?thesis by blast
  next
    case (Inr u)
    then have "\<forall>ds. load_directory_files fs rootdir (self\<lparr>documents := ds\<rparr>) (fname # fnames)
        = (r2, self\<lparr>documents := ds @ (new1 @ new2)\<rparr>, out1 @ out2)"
      by (simp add: one rest)
    then show ?thesis by blast
  qed
qed

lemma load_directory_walk_appends:
  "\<exists>r new out. \<forall>ds. load_directory_walk fs (self\<lparr>documents := ds\<rparr>) entries
      = (r, self\<lparr>documents := ds @ new\<rparr>, out)"
proof (induction entries)
  case Nil
  have "\<forall>ds. load_directory_walk fs (self\<lparr>documents := ds\<rparr>) []
      = (Inr (), self\<lparr>documents := ds @ []\<rparr>, [])"
    by simp
  then show ?case by blast
next
  case (Cons entry entries)
  obtain rootdir dirs fnames where entry: "entry = (rootdir, dirs, fnames)"
    by (cases entry) auto
  obtain r1 new1 out1 where one: "\<And>ds. load_directory_files fs rootdir (self\<lparr>documents := ds\<rparr>) fnames
      = (r1, self\<lparr>documents := ds @ new1\<rparr>, out1)"
    using load_directory_files_appends [of fs rootdir self fnames] by blast
  obtain r2 new2 out2 where rest: "\<And>ds. load_directory_walk fs (self\<lparr>documents := ds\<rparr>) entries
      = (r2, self\<lparr>documents := ds @ new2\<rparr>, out2)"
    using Cons.IH by blast
  show ?case
  proof (cases r1)
    case (Inl e)
    then have "\<forall>ds. load_directory_walk fs (self\<lparr>documents := ds\<rparr>) (entry # entries)
        = (Inl e, self\<lparr>documents := ds @ new1\<rparr>, out1)"
      by (simp add: entry one)
    then show ?thesis by blast
  next
    case (Inr u)
    then have "\<forall>ds. load_directory_walk fs (self\<lparr>documents := ds\<rparr>) (entry # entries)
        = (r2, self\<lparr>documents := ds @ (new1 @ new2)\<rparr>, out1 @ out2)"
      by (simp add: entry one rest)
    then show ?thesis by blast
  qed
qed

lemma load_directory_appends:
  "\<exists>r new out. \<forall>ds. load_directory fs (self\<lparr>documents := ds\<rparr>)
      = (r, self\<lparr>documents := ds @ new\<rparr>, out)"
  using load_directory_walk_appends [of fs self "walk fs (path self)"]
  by (simp add: load_directory_def)

lemma load_appends:
  "\<exists>r new out. \<forall>ds. load fs (self\<lparr>documents := ds\<rparr>)
      = (r, self\<lparr>documents := ds @ new\<rparr>, out)"
proof -
  consider (c_dir) "isdir fs (path self)"
    | (c_txt) "\<not> isdir fs (path self)" "isfile fs (path self)" "endswith (path self) (str ''.txt'')"
    | (c_pdf) "\<not> isdir fs (path self)" "isfile fs (path self)" "\<not> endswith (path self) (str ''.txt'')"
        "endswith (path self) (str ''.pdf'')"
    | (c_other) "\<not> isdir fs (path self)" "isfile fs (path self)" "\<not> endswith (path self) (str ''.txt'')"
        "\<not> endswith (path self) (str ''.pdf'')"
    | (c_none) "\<not> isdir fs (path self)" "\<not> isfile fs (path self)"
    by blast
  then show ?thesis
  proof cases
    case c_dir
    then have "\<And>ds. load fs (self\<lparr>documents := ds\<rparr>) = load_directory fs (self\<lparr>documents := ds\<rparr>)"
      by (simp add: load_def)
    then show ?thesis using load_directory_appends [of fs self] by simp
  next
    case c_txt
    then have "\<And>ds. load fs (self\<lparr>documents := ds\<rparr>) = load_file fs (self\<lparr>documents := ds\<rparr>)"
      by (simp add: load_def)
    then show ?thesis using load_file_appends [of fs self] by simp
  next
    case c_pdf
    then have "\<And>ds. load fs (self\<lparr>documents := ds\<rparr>) = load_pdf_file fs (self\<lparr>documents := ds\<rparr>)"
      by (simp add: load_def)
    then show ?thesis using load_pdf_file_appends [of fs self] by simp
  next
    case c_other
    then have "\<forall>ds. load fs (self\<lparr>documents := ds\<rparr>)
        = (Inl (ValueError ''Provided file is neither a .txt nor .pdf file.''),
           self\<lparr>documents := ds @ []\<rparr>, [])"
      by (simp add: load_def)
    then show ?thesis by blast
  next
    case c_none
    then have "\<forall>ds. load fs (self\<lparr>documents := ds\<rparr>)
        = (Inl (ValueError ''Provided path is neither a valid directory nor a supported file.''),
           self\<lparr>documents := ds @ []\<rparr>, [])"
      by (simp add: load_def)
    then show ?thesis by blast
  qed
qed

lemma load_documents_twice:
  assumes "load_documents fs self = (Inr docs, self1, out)"
  shows "\<exists>new. docs = documents self @ new \<and> self1 = self\<lparr>documents := docs\<rparr>
     \<and> load_documents fs self1 = (Inr (docs @ new), self1\<lparr>documents := docs @ new\<rparr>, out)"
proof -
  obtain r new out0 where run: "\<And>ds. load fs (self\<lparr>documents := ds\<rparr>)
      = (r, self\<lparr>documents := ds @ new\<rparr>, out0)"
    using load_appends [of fs self] by blast
  have first: "load fs self = (r, self\<lparr>documents := documents self @ new\<rparr>, out0)"
    using run [of "documents self"] by simp
  have r: "r = Inr ()" and docs: "docs = documents self @ new"
    and self1: "self1 = self\<lparr>documents := documents self @ new\<rparr>" and out: "out = out0"
    using assms first by (auto simp: load_documents_def split: sum.splits)
  have "load fs self1 = (Inr (), self\<lparr>documents := docs @ new\<rparr>, out)"
    using run [of docs] by (simp add: self1 docs r out)
  then have "load_documents fs self1 = (Inr (docs @ new), self1\<lparr>documents := docs @ new\<rparr>, out)"
    by (simp add: load_documents_def self1)
  then show ?thesis using docs self1 by auto
qed

text \<open>
  C10: each load operation of a \<open>TextFileLoader\<close> leaves the instance as it was but for
  \<open>documents\<close>, to which it appends documents that do not depend on what the list held
  (nothing is removed, replaced or reset, also when the operation raises). So when
  \<open>load_documents()\<close> has returned, a second call on the instance, the files unchanged,
  returns the list of the first call followed by the documents loaded again; for a fresh
  instance that is the first list twice.
\<close>

theorem load_only_appends:
  "(\<exists>r new out. \<forall>ds. load fs (self\<lparr>documents := ds\<rparr>)
        = (r, self\<lparr>documents := ds @ new\<rparr>, out))
   \<and> (\<exists>r new out. \<forall>ds. load_file fs (self\<lparr>documents := ds\<rparr>)
        = (r, self\<lparr>documents := ds @ new\<rparr>, out))
   \<and> (\<exists>r new out. \<forall>ds. load_pdf_file fs (self\<lparr>documents := ds\<rparr>)
        = (r, self\<lparr>documents := ds @ new\<rparr>, out))
   \<and> (\<exists>r new out. \<forall>ds. load_directory fs (self\<lparr>documents := ds\<rparr>)
        = (r, self\<lparr>documents := ds @ new\<rparr>, out))
   \<and> (\<forall>docs self1 out. load_documents fs self = (Inr docs, self1, out) \<longrightarrow>
        (\<exists>new. docs = documents self @ new \<and> self1 = self\<lparr>documents := docs\<rparr>
           \<and> load_documents fs self1
               = (Inr (docs @ new), self1\<lparr>documents := docs @ new\<rparr>, out)))
   \<and> (\<forall>docs self1 out.
        load_documents fs (TextFileLoader_init p enc) = (Inr docs, self1, out) \<longrightarrow>
        load_documents fs self1 = (Inr (docs @ docs), self1\<lparr>documents := docs @ docs\<rparr>, out))"
proof -
  have fresh: "\<forall>docs self1 out.
        load_documents fs (TextFileLoader_init p enc) = (Inr docs, self1, out) \<longrightarrow>
        load_documents fs self1 = (Inr (docs @ docs), self1\<lparr>documents := docs @ docs\<rparr>, out)"
  proof (intro allI impI)
    fix docs self1 out
    assume "load_documents fs (TextFileLoader_init p enc) = (Inr docs, self1, out)"
    then obtain new where "docs = documents (TextFileLoader_init p enc) @ new"
      and "load_documents fs self1 = (Inr (docs @ new), self1\<lparr>documents := docs @ new\<rparr>, out)"
      using load_documents_twice by blast
    then show "load_documents fs self1 = (Inr (docs @ docs), self1\<lparr>documents := docs @ docs\<rparr>, out)"
      by (simp add: TextFileLoader_init_def)
  qed
  show ?thesis
    using load_appends [of fs self] load_file_appends [of fs self]
      load_pdf_file_appends [of fs self] load_directory_appends [of fs self]
      load_documents_twice [of fs self] fresh
    by blast
qed

theorem load_only_appends_witness:
  "load_documents example_fs (TextFileLoader_init (str ''docs'') (str ''utf-8''))
     = (Inr [str ''hello'', str ''world'' @ [10, 32, 10] @ str ''again'' @ [10]],
        \<lparr>documents = [str ''hello'', str ''world'' @ [10, 32, 10] @ str ''again'' @ [10]],
         path = str ''docs'', encoding = str ''utf-8''\<rparr>,
        [str ''Warning: No text content extracted from docs/blank.pdf''])
   \<and> load_documents example_fs
        \<lparr>documents = [str ''hello'', str ''world'' @ [10, 32, 10] @ str ''again'' @ [10]],
         path = str ''docs'', encoding = str ''utf-8''\<rparr>
     = (Inr ([str ''hello'', str ''world'' @ [10, 32, 10] @ str ''again'' @ [10]]
             @ [str ''hello'', str ''world'' @ [10, 32, 10] @ str ''again'' @ [10]]),
        \<lparr>documents = [str ''hello'', str ''world'' @ [10, 32, 10] @ str ''again'' @ [10]]
             @ [str ''hello'', str ''world'' @ [10, 32, 10] @ str ''again'' @ [10]],
         path = str ''docs'', encoding = str ''utf-8''\<rparr>,
        [str ''Warning: No text content extracted from docs/blank.pdf''])"
proof -
  have first: "load_documents example_fs (TextFileLoader_init (str ''docs'') (str ''utf-8''))
     = (Inr [str ''hello'', str ''world'' @ [10, 32, 10] @ str ''again'' @ [10]],
        \<lparr>documents = [str ''hello'', str ''world'' @ [10, 32, 10] @ str ''again'' @ [10]],
         path = str ''docs'', encoding = str ''utf-8''\<rparr>,
        [str ''Warning: No text content extracted from docs/blank.pdf''])"
    by (simp add: load_documents_def load_def load_directory_def load_directory_file_def
          load_pdf_file_def example_simps)
  show ?thesis
    using first load_only_appends [of example_fs "TextFileLoader_init (str ''docs'') (str ''utf-8'')"
        "str ''docs''" "str ''utf-8''"]
    by simp
qed

subsection \<open>Documents and metadata of a PDF\<close>

lemma load_pdf_pages_same_length:
  assumes "length (pdf_documents self) = length (pdf_metadata self)"
  shows "length (pdf_documents (snd (load_pdf_pages pdf_reader self ns)))
     = length (pdf_metadata (snd (load_pdf_pages pdf_reader self ns)))"
  using assms
  by (induction ns arbitrary: self) (auto split: sum.splits option.splits)

lemma load_pdf_with_metadata_same_length:
  assumes "length (pdf_documents self) = length (pdf_metadata self)"
  shows "length (pdf_documents (fst (snd (load_pdf_with_metadata fs self))))
     = length (pdf_metadata (fst (snd (load_pdf_with_metadata fs self))))"
proof (cases "read_pdf fs (pdf_path self)")
  case (Inl e)
  then show ?thesis using assms by (simp add: load_pdf_with_metadata_def)
next
  case (Inr pdf_reader)
  obtain r self' where run:
    "load_pdf_pages pdf_reader self [0..<length (pages pdf_reader)] = (r, self')"
    by (cases "load_pdf_pages pdf_reader self [0..<length (pages pdf_reader)]") auto
  have "length (pdf_documents self') = length (pdf_metadata self')"
    using load_pdf_pages_same_length [OF assms, of pdf_reader "[0..<length (pages pdf_reader)]"] run
    by simp
  then show ?thesis
    using Inr run by (cases r) (simp_all add: load_pdf_with_metadata_def)
qed

lemma load_pdf_pages_with_info:
  assumes "pages pdf_reader = map Inr texts" "reader_metadata pdf_reader = Some doc_info"
    and "\<forall>i\<in>set ns. i < length texts"
  shows "load_pdf_pages pdf_reader self ns =
     (Inr (),
      self\<lparr>pdf_documents := pdf_documents self
               @ map (\<lambda>i. texts ! i) (filter (\<lambda>i. py_strip (texts ! i) \<noteq> []) ns),
            pdf_metadata := pdf_metadata self
               @ map (\<lambda>i. page_metadata (pdf_path self) i (length texts) doc_info)
                   (filter (\<lambda>i. py_strip (texts ! i) \<noteq> []) ns)\<rparr>)"
  using assms(3)
proof (induction ns arbitrary: self)
  case Nil
  show ?case by simp
next
  case (Cons page_num rest)
  have pg: "pages pdf_reader ! page_num = Inr (texts ! page_num)"
    using Cons.prems assms(1) by simp
  have rest: "\<forall>i\<in>set rest. i < length texts" using Cons.prems by simp
  show ?case
    using pg assms(1,2) Cons.IH [OF rest] by simp
qed

lemma load_pdf_pages_without_info:
  assumes "pages pdf_reader = map Inr texts" "reader_metadata pdf_reader = None"
    and "\<forall>i\<in>set ns. i < length texts"
  shows "load_pdf_pages pdf_reader self ns =
     (if filter (\<lambda>i. py_strip (texts ! i) \<noteq> []) ns = [] then (Inr (), self)
      else (Inl NoneType_has_no_get, self))"
  using assms(3)
proof (induction ns)
  case Nil
  show ?case by simp
next
  case (Cons page_num rest)
  have pg: "pages pdf_reader ! page_num = Inr (texts ! page_num)"
    using Cons.prems assms(1) by simp
  have rest: "\<forall>i\<in>set rest. i < length texts" using Cons.prems by simp
  show ?case
    using pg assms(2) Cons.IH [OF rest] by simp
qed

text \<open>
  C7: for a PDF whose pages are all extracted, \<open>load_documents()\<close> of a fresh
  \<open>PDFFileLoader\<close> does the following. When the file has an information dictionary, it
  returns the texts of the pages that are not blank, in order, and for each of them, at the
  same index, the metadata naming the file, the page count and the number of that page: a
  blank page is in neither list and every other page is once in both. When the file has no
  information dictionary (\<open>reader.metadata\<close> is \<open>None\<close>), the first page with text makes
  \<open>doc_info.get\<close> raise \<open>AttributeError\<close>: the error is printed and raised again, and the
  page is in neither list, against what the claim says of every PDF. Whatever the call
  does, two lists of the same length stay of the same length.
\<close>

theorem pdf_load_documents_result:
  "(read_pdf fs p = Inr pdf_reader \<and> pages pdf_reader = map Inr texts \<longrightarrow>
      PDFFileLoader_load_documents fs (PDFFileLoader_init p) =
        (case reader_metadata pdf_reader of
           Some doc_info \<Rightarrow>
             (Inr (map (\<lambda>i. texts ! i) (retained_pages texts),
                   map (\<lambda>i. page_metadata p i (length texts) doc_info) (retained_pages texts)),
              \<lparr>pdf_documents = map (\<lambda>i. texts ! i) (retained_pages texts),
               pdf_metadata =
                 map (\<lambda>i. page_metadata p i (length texts) doc_info) (retained_pages texts),
               pdf_path = p\<rparr>,
              [])
         | None \<Rightarrow>
             if retained_pages texts = [] then (Inr ([], []), PDFFileLoader_init p, [])
             else (Inl NoneType_has_no_get, PDFFileLoader_init p,
                   [str ''Error reading PDF file '' @ p @ str '': ''
                    @ exc_str NoneType_has_no_get])))
   \<and> (length (pdf_documents self) = length (pdf_metadata self)
     \<longrightarrow> length (pdf_documents (fst (snd (load_pdf_with_metadata fs self))))
         = length (pdf_metadata (fst (snd (load_pdf_with_metadata fs self)))))"
proof (intro conjI impI)
  assume h: "read_pdf fs p = Inr pdf_reader \<and> pages pdf_reader = map Inr texts"
  then have rd: "read_pdf fs p = Inr pdf_reader" and pg: "pages pdf_reader = map Inr texts"
    by simp_all
  have idx: "\<forall>i\<in>set [0..<length texts]. i < length texts" by simp
  have n: "length (pages pdf_reader) = length texts" using pg by simp
  show "PDFFileLoader_load_documents fs (PDFFileLoader_init p) =
        (case reader_metadata pdf_reader of
           Some doc_info \<Rightarrow>
             (Inr (map (\<lambda>i. texts ! i) (retained_pages texts),
                   map (\<lambda>i. page_metadata p i (length texts) doc_info) (retained_pages texts)),
              \<lparr>pdf_documents = map (\<lambda>i. texts ! i) (retained_pages texts),
               pdf_metadata =
                 map (\<lambda>i. page_metadata p i (length texts) doc_info) (retained_pages texts),
               pdf_path = p\<rparr>,
              [])
         | None \<Rightarrow>
             if retained_pages texts = [] then (Inr ([], []), PDFFileLoader_init p, [])
             else (Inl NoneType_has_no_get, PDFFileLoader_init p,
                   [str ''Error reading PDF file '' @ p @ str '': ''
                    @ exc_str NoneType_has_no_get]))"
  proof (cases "reader_metadata pdf_reader")
    case None
    have "load_pdf_pages pdf_reader (PDFFileLoader_init p) [0..<length texts] =
        (if retained_pages texts = [] then (Inr (), PDFFileLoader_init p)
         else (Inl NoneType_has_no_get, PDFFileLoader_init p))"
      unfolding retained_pages_def by (rule load_pdf_pages_without_info [OF pg None idx])
    then show ?thesis
      using None rd n
      by (simp add: PDFFileLoader_load_documents_def load_pdf_with_metadata_def
            PDFFileLoader_init_def)
  next
    case (Some doc_info)
    have "load_pdf_pages pdf_reader (PDFFileLoader_init p) [0..<length texts] =
        (Inr (),
         (PDFFileLoader_init p)\<lparr>pdf_documents := pdf_documents (PDFFileLoader_init p)
               @ map (\<lambda>i. texts ! i) (retained_pages texts),
            pdf_metadata := pdf_metadata (PDFFileLoader_init p)
               @ map (\<lambda>i. page_metadata (pdf_path (PDFFileLoader_init p)) i (length texts) doc_info)
                   (retained_pages texts)\<rparr>)"
      unfolding retained_pages_def by (rule load_pdf_pages_with_info [OF pg Some idx])
    then show ?thesis
      using Some rd n
      by (simp add: PDFFileLoader_load_documents_def load_pdf_with_metadata_def
            PDFFileLoader_init_def)
  qed
next
  assume "length (pdf_documents self) = length (pdf_metadata self)"
  then show "length (pdf_documents (fst (snd (load_pdf_with_metadata fs self))))
         = length (pdf_metadata (fst (snd (load_pdf_with_metadata fs self))))"
    by (rule load_pdf_with_metadata_same_length)
qed

theorem pdf_load_documents_result_witness:
  "PDFFileLoader_load_documents example_noinfo_fs (PDFFileLoader_init (str ''scan.pdf''))
     = (Inl NoneType_has_no_get,
        \<lparr>pdf_documents = [], pdf_metadata = [], pdf_path = str ''scan.pdf''\<rparr>,
        [str ''Error reading PDF file scan.pdf: ''
         @ str ([CHR 0x27] @ ''NoneType'' @ [CHR 0x27] @ '' object has no attribute ''
                @ [CHR 0x27] @ ''get'' @ [CHR 0x27])])
   \<and> PDFFileLoader_load_documents example_fs (PDFFileLoader_init (str ''docs/b.pdf''))
     = (Inr ([str ''world'', str ''again''],
             [page_metadata (str ''docs/b.pdf'') 0 3 [str ''/Title'' \<mapsto> str ''Report''],
              page_metadata (str ''docs/b.pdf'') 2 3 [str ''/Title'' \<mapsto> str ''Report'']]),
        \<lparr>pdf_documents = [str ''world'', str ''again''],
         pdf_metadata = [page_metadata (str ''docs/b.pdf'') 0 3 [str ''/Title'' \<mapsto> str ''Report''],
              page_metadata (str ''docs/b.pdf'') 2 3 [str ''/Title'' \<mapsto> str ''Report'']],
         pdf_path = str ''docs/b.pdf''\<rparr>, [])
   \<and> map page_number
         [page_metadata (str ''docs/b.pdf'') 0 3 [str ''/Title'' \<mapsto> str ''Report''],
          page_metadata (str ''docs/b.pdf'') 2 3 [str ''/Title'' \<mapsto> str ''Report'']]
       = [1, 3]"
proof -
  have u2: "[0..<2] = [0, 1::nat]" by (simp add: upt_rec)
  have u3: "[0..<3] = [0, 1, 2::nat]" by (simp add: upt_rec)
  have k2: "retained_pages [str ''one'', str ''two''] = [0, 1]"
    by (simp add: retained_pages_def u2 str_def py_strip_def py_isspace_def)
  have k3: "retained_pages [str ''world'', str '' '', str ''again''] = [0, 2]"
    by (simp add: retained_pages_def u3 str_def py_strip_def py_isspace_def)
  have a: "PDFFileLoader_load_documents example_noinfo_fs (PDFFileLoader_init (str ''scan.pdf''))
     = (Inl NoneType_has_no_get,
        \<lparr>pdf_documents = [], pdf_metadata = [], pdf_path = str ''scan.pdf''\<rparr>,
        [str ''Error reading PDF file scan.pdf: ''
         @ str ([CHR 0x27] @ ''NoneType'' @ [CHR 0x27] @ '' object has no attribute ''
                @ [CHR 0x27] @ ''get'' @ [CHR 0x27])])"
    using pdf_load_documents_result [of example_noinfo_fs "str ''scan.pdf''" example_noinfo
        "[str ''one'', str ''two'']", THEN conjunct1] k2
    by (simp add: example_noinfo_fs_def example_noinfo_def PDFFileLoader_init_def
          NoneType_has_no_get_def AttributeError_def str_def)
  have b: "PDFFileLoader_load_documents example_fs (PDFFileLoader_init (str ''docs/b.pdf''))
     = (Inr ([str ''world'', str ''again''],
             [page_metadata (str ''docs/b.pdf'') 0 3 [str ''/Title'' \<mapsto> str ''Report''],
              page_metadata (str ''docs/b.pdf'') 2 3 [str ''/Title'' \<mapsto> str ''Report'']]),
        \<lparr>pdf_documents = [str ''world'', str ''again''],
         pdf_metadata = [page_metadata (str ''docs/b.pdf'') 0 3 [str ''/Title'' \<mapsto> str ''Report''],
              page_metadata (str ''docs/b.pdf'') 2 3 [str ''/Title'' \<mapsto> str ''Report'']],
         pdf_path = str ''docs/b.pdf''\<rparr>, [])"
    using pdf_load_documents_result [of example_fs "str ''docs/b.pdf''" example_report
        "[str ''world'', str '' '', str ''again'']", THEN conjunct1] k3
    by (simp add: example_fs_def example_report_def str_def numeral_3_eq_3 [symmetric])
  have c: "map page_number
         [page_metadata (str ''docs/b.pdf'') 0 3 [str ''/Title'' \<mapsto> str ''Report''],
          page_metadata (str ''docs/b.pdf'') 2 3 [str ''/Title'' \<mapsto> str ''Report'']]
       = [1, 3]"
    by (simp add: page_metadata_def)
  show ?thesis using a b c by blast
qed

end
